theory Spec2Isabelle
  imports Complex_Main
begin

section \<open>Python values used by \<open>main.py\<close>\<close>

text \<open>
  A Python float is either not-a-number or a number. Numbers are idealised as exact
  reals: rounding to binary64 and overflow to an infinity are not part of this model.
  The class attributes \<open>x\<close> and \<open>cov\<close> of \<open>DataStream\<close> start as \<open>float('nan')\<close>, and
  \<open>kalman_filter\<close> tests \<open>math.isnan(self.x)\<close>, so not-a-number is kept as a value.
\<close>

datatype pyfloat = NaN | Num real

datatype error = ZeroDivisionError | ValueError | IndexError

fun isnan :: "pyfloat \<Rightarrow> bool" where
  "isnan NaN = True"
| "isnan (Num v) = False"

fun f_add :: "pyfloat \<Rightarrow> pyfloat \<Rightarrow> pyfloat" where
  "f_add (Num a) (Num b) = Num (a + b)"
| "f_add a b = NaN"

fun f_sub :: "pyfloat \<Rightarrow> pyfloat \<Rightarrow> pyfloat" where
  "f_sub (Num a) (Num b) = Num (a - b)"
| "f_sub a b = NaN"

fun f_mul :: "pyfloat \<Rightarrow> pyfloat \<Rightarrow> pyfloat" where
  "f_mul (Num a) (Num b) = Num (a * b)"
| "f_mul a b = NaN"

text \<open>Python's \<open>/\<close> raises \<open>ZeroDivisionError\<close> on a zero divisor, whatever the dividend.\<close>

fun f_div :: "pyfloat \<Rightarrow> pyfloat \<Rightarrow> error + pyfloat" where
  "f_div (Num a) (Num b) = (if b = 0 then Inl ZeroDivisionError else Inr (Num (a / b)))"
| "f_div NaN (Num b) = (if b = 0 then Inl ZeroDivisionError else Inr NaN)"
| "f_div a NaN = Inr NaN"

text \<open>\<open>math.trunc\<close> and \<open>int\<close> on a float: rounding towards zero.\<close>

definition py_trunc :: "real \<Rightarrow> int" where
  "py_trunc v = (if 0 \<le> v then \<lfloor>v\<rfloor> else \<lceil>v\<rceil>)"

text \<open>\<open>math.modf\<close>: the fractional and the integral part, both with the sign of the argument.\<close>

definition modf :: "real \<Rightarrow> real \<times> real" where
  "modf v = (v - of_int (py_trunc v), of_int (py_trunc v))"

text \<open>\<open>round\<close> with one argument: the nearest integer, a tie going to the even one.\<close>

definition py_round :: "real \<Rightarrow> int" where
  "py_round v =
     (let f = \<lfloor>v\<rfloor>; d = v - of_int f
      in if d < 1 / 2 then f
         else if 1 / 2 < d then f + 1
         else if even f then f else f + 1)"

section \<open>\<open>datetime.datetime\<close>\<close>

record datetime =
  year :: int
  month :: int
  day :: int
  hour :: int
  minute :: int
  second :: int
  microsecond :: int

definition is_leap :: "int \<Rightarrow> bool" where
  "is_leap y = (y mod 400 = 0 \<or> (y mod 4 = 0 \<and> y mod 100 \<noteq> 0))"

definition days_in_month :: "int \<Rightarrow> int \<Rightarrow> int" where
  "days_in_month y m =
     (if m = 2 then (if is_leap y then 29 else 28)
      else if m = 4 \<or> m = 6 \<or> m = 9 \<or> m = 11 then 30 else 31)"

text \<open>
  The constructor checks every field and raises \<open>ValueError\<close> when one is out of range
  (years 1 to 9999, a day that exists in the proleptic Gregorian month, microseconds
  below one million).
\<close>

definition datetime_new :: "int \<Rightarrow> int \<Rightarrow> int \<Rightarrow> int \<Rightarrow> int \<Rightarrow> int \<Rightarrow> int \<Rightarrow> error + datetime" where
  "datetime_new y mo d h mi s us =
     (if 1 \<le> y \<and> y \<le> 9999 \<and> 1 \<le> mo \<and> mo \<le> 12 \<and> 1 \<le> d \<and> d \<le> days_in_month y mo
         \<and> 0 \<le> h \<and> h \<le> 23 \<and> 0 \<le> mi \<and> mi \<le> 59 \<and> 0 \<le> s \<and> s \<le> 59
         \<and> 0 \<le> us \<and> us \<le> 999999
      then Inr \<lparr>year = y, month = mo, day = d, hour = h, minute = mi, second = s,
                microsecond = us\<rparr>
      else Inl ValueError)"

section \<open>The module constants and the \<open>DataStream\<close> class\<close>

definition FILTER_R :: real where "FILTER_R = 0.002"
definition FILTER_Q :: real where "FILTER_Q = 0.1"
definition TIME_CRT :: real where "TIME_CRT = 0.000"

text \<open>One record of \<open>parsed_data\<close>: the dictionary \<open>temp\<close> built for a line of the file.\<close>

record enriched =
  ts :: real
  mag :: real
  dif :: real
  f_mag :: pyfloat
  dt :: datetime
  dt_cor :: datetime

record DataStream =
  file_name :: string
  A :: real
  B :: real
  C :: real
  R :: real
  Q :: real
  data_stream :: "enriched list"
  cov :: pyfloat
  x :: pyfloat

text \<open>\<open>__init__\<close>; \<open>cov\<close> and \<open>x\<close> are the class attributes, still not-a-number.\<close>

definition DataStream_init :: "string \<Rightarrow> DataStream" where
  "DataStream_init fn =
     \<lparr>file_name = fn, A = 1, B = 0, C = 1, R = FILTER_R, Q = FILTER_Q,
      data_stream = [], cov = NaN, x = NaN\<rparr>"

subsection \<open>\<open>kalman_filter\<close>\<close>

text \<open>
  The method mutates \<open>self.x\<close> and \<open>self.cov\<close> and returns \<open>self.x\<close>; the model returns
  the updated object with the value. The measurement is a finite float.
\<close>

definition kalman_filter :: "DataStream \<Rightarrow> real \<Rightarrow> error + (DataStream \<times> pyfloat)" where
  "kalman_filter self measurement =
     (let u = 0 in
      if isnan (x self) then
        (case f_div (Num 1) (Num (C self)) of
           Inl e \<Rightarrow> Inl e
         | Inr c1 \<Rightarrow>
             let self = self\<lparr>x := f_mul c1 (Num measurement)\<rparr>;
                 self = self\<lparr>cov := f_mul (f_mul c1 (Num (Q self))) c1\<rparr>
             in Inr (self, x self))
      else
        (let pred_x = f_add (f_mul (Num (A self)) (x self)) (Num (B self * u));
             pred_cov = f_add (f_mul (f_mul (Num (A self)) (cov self)) (Num (A self)))
                          (Num (R self))
         in case f_div (Num 1)
                   (f_add (f_mul (f_mul (Num (C self)) pred_cov) (Num (C self))) (Num (Q self))) of
              Inl e \<Rightarrow> Inl e
            | Inr rcp \<Rightarrow>
                let k = f_mul (f_mul pred_cov (Num (C self))) rcp;
                    self = self\<lparr>x := f_add pred_x
                              (f_mul k (f_sub (Num measurement) (f_mul (Num (C self)) pred_x)))\<rparr>;
                    self = self\<lparr>cov := f_sub pred_cov (f_mul (f_mul k (Num (C self))) pred_cov)\<rparr>
                in Inr (self, x self)))"

subsection \<open>\<open>jd_to_datetime\<close>\<close>

text \<open>Lines 96 to 100: the value \<open>B\<close> for the integral day number \<open>I\<close>.\<close>

definition jd_B :: "int \<Rightarrow> int" where
  "jd_B I =
     (let A = py_trunc ((of_int I - 1867216.25) / 36524.25)
      in if I > 2299160 then I + 1 + A - py_trunc (of_int A / 4) else I)"

definition jd_to_datetime :: "real \<Rightarrow> error + datetime" where
  "jd_to_datetime jd =
     (let jd = jd + 0.5;
          (F, I) = modf jd;
          I = py_trunc I;
          B = jd_B I;
          C = B + 1524;
          D = py_trunc ((of_int C - 122.1) / 365.25);
          E = py_trunc (365.25 * of_int D);
          G = py_trunc (of_int (C - E) / 30.6001);
          day = of_int (C - E) + F - of_int (py_trunc (30.6001 * of_int G));
          month = (if of_int G < (13.5 :: real) then G - 1 else G - 13);
          year = (if of_int month > (2.5 :: real) then D - 4716 else D - 4715);
          (frac_days, day) = modf day;
          day = py_trunc day;
          hours = frac_days * 24;
          (hours, hour) = modf hours;
          mins = hours * 60;
          (mins, min) = modf mins;
          secs = mins * 60;
          (secs, sec) = modf secs;
          micro = py_round (secs * 1000000)
      in datetime_new year month day (py_trunc hour) (py_trunc min) (py_trunc sec) micro)"

subsection \<open>\<open>load_data\<close>\<close>

text \<open>
  A line of the file after tokenisation: a header line (one that contains \<open>JD\<close>), or the
  three floats read from a data line. The loop of \<open>load_data\<close> is \<open>load_lines\<close>, with
  \<open>parsed_data\<close> as its accumulator; an exception of a callee leaves the loop.
\<close>

datatype line = Header | Row real real real

fun load_lines :: "DataStream \<Rightarrow> line list \<Rightarrow> enriched list \<Rightarrow> error + (DataStream \<times> enriched list)" where
  "load_lines self [] parsed_data = Inr (self, parsed_data)"
| "load_lines self (Header # rest) parsed_data = load_lines self rest parsed_data"
| "load_lines self (Row t m d # rest) parsed_data =
     (case kalman_filter self m of
        Inl e \<Rightarrow> Inl e
      | Inr (self', fm) \<Rightarrow>
          (case jd_to_datetime t of
             Inl e \<Rightarrow> Inl e
           | Inr d1 \<Rightarrow>
               (case jd_to_datetime (t - TIME_CRT) of
                  Inl e \<Rightarrow> Inl e
                | Inr d2 \<Rightarrow>
                    load_lines self' rest
                      (parsed_data @ [\<lparr>ts = t, mag = m, dif = d, f_mag = fm, dt = d1, dt_cor = d2\<rparr>]))))"

text \<open>After the loop, \<open>logging.debug(parsed_data[0])\<close> raises \<open>IndexError\<close> on an empty list.\<close>

definition load_data :: "DataStream \<Rightarrow> line list \<Rightarrow> error + DataStream" where
  "load_data self lines =
     (case load_lines self lines [] of
        Inl e \<Rightarrow> Inl e
      | Inr (self', parsed_data) \<Rightarrow>
          if parsed_data = [] then Inl IndexError
          else Inr (self'\<lparr>data_stream := parsed_data\<rparr>))"

subsection \<open>Feeding a sequence of measurements\<close>

text \<open>
  \<open>replay\<close> calls \<open>kalman_filter\<close> on one object for each measurement in turn and collects
  the returned values.
\<close>

fun replay :: "DataStream \<Rightarrow> real list \<Rightarrow> error + (DataStream \<times> pyfloat list)" where
  "replay self [] = Inr (self, [])"
| "replay self (m # ms) =
     (case kalman_filter self m of
        Inl e \<Rightarrow> Inl e
      | Inr (self', y) \<Rightarrow>
          (case replay self' ms of
             Inl e \<Rightarrow> Inl e
           | Inr (self'', ys) \<Rightarrow> Inr (self'', y # ys)))"

fun magnitudes :: "line list \<Rightarrow> real list" where
  "magnitudes [] = []"
| "magnitudes (Header # rest) = magnitudes rest"
| "magnitudes (Row t m d # rest) = m # magnitudes rest"

text \<open>
  A filter as \<open>__init__\<close> leaves it, whatever its noise parameters \<open>R\<close> and \<open>Q\<close>: no
  estimate yet, and the coefficients \<open>A = 1\<close>, \<open>B = 0\<close>, \<open>C = 1\<close>.
\<close>

definition fresh_filter :: "DataStream \<Rightarrow> bool" where
  "fresh_filter self = (isnan (x self) \<and> A self = 1 \<and> B self = 0 \<and> C self = 1)"

text \<open>
  The covariance that one call of \<open>kalman_filter\<close> computes from the covariance \<open>c\<close> when
  \<open>A = 1\<close> and \<open>C = 1\<close> (lines 76, 79 and 83): \<open>pred_cov = c + R\<close>,
  \<open>k = pred_cov * (1 / (pred_cov + Q))\<close>, and the result \<open>pred_cov - k * pred_cov\<close>.
\<close>

definition cov_next :: "real \<Rightarrow> real \<Rightarrow> real \<Rightarrow> real" where
  "cov_next r q c = c + r - (c + r) * (1 / (c + r + q)) * (c + r)"

text \<open>
  The date after a date in the calendar of \<open>datetime\<close> (the proleptic Gregorian one), as
  adding \<open>timedelta(days=1)\<close> gives it.
\<close>

definition next_date :: "int \<Rightarrow> int \<Rightarrow> int \<Rightarrow> int \<times> int \<times> int" where
  "next_date y m d =
     (if d < days_in_month y m then (y, m, d + 1)
      else if m < 12 then (y, m + 1, 1) else (y + 1, 1, 1))"

section \<open>Evaluation lemmas\<close>

lemma py_trunc_nonneg: "0 \<le> v \<Longrightarrow> py_trunc v = \<lfloor>v\<rfloor>"
  by (simp add: py_trunc_def)

text \<open>
  \<open>jd_to_datetime\<close> line by line: once the value of every local variable is known, the
  result is the call of the \<open>datetime\<close> constructor on them.
\<close>

lemma jd_to_datetime_steps:
  assumes "modf (jd + 0.5) = (F, Ir)" and "py_trunc Ir = I" and "jd_B I = Bv"
    and "py_trunc ((of_int (Bv + 1524) - 122.1) / 365.25) = D"
    and "py_trunc (365.25 * of_int D) = E"
    and "py_trunc (of_int (Bv + 1524 - E) / 30.6001) = G"
    and "modf (of_int (Bv + 1524 - E) + F - of_int (py_trunc (30.6001 * of_int G))) = (fd, dr)"
    and "modf (fd * 24) = (fh, hr)"
    and "modf (fh * 60) = (fm, mr)"
    and "modf (fm * 60) = (fs, sr)"
    and "mo = (if of_int G < (13.5 :: real) then G - 1 else G - 13)"
    and "y = (if of_int mo > (2.5 :: real) then D - 4716 else D - 4715)"
  shows "jd_to_datetime jd =
     datetime_new y mo (py_trunc dr) (py_trunc hr) (py_trunc mr) (py_trunc sr)
       (py_round (fs * 1000000))"
  unfolding jd_to_datetime_def Let_def
  by (simp only: assms prod.case)

section \<open>Initialisation of the filter\<close>

text \<open>
  Claim C2. The first call of \<open>kalman_filter\<close>, on an object whose \<open>x\<close> is still
  not-a-number, with a finite measurement \<open>m\<close> and \<open>C \<noteq> 0\<close>, sets the estimate to \<open>m / C\<close>
  and the covariance to \<open>Q / C\<^sup>2\<close> and returns the estimate; with \<open>C = 1\<close> it returns
  exactly \<open>m\<close> and the covariance is exactly \<open>Q\<close>.
\<close>

theorem kalman_filter_init:
  "isnan (x self) \<Longrightarrow> C self \<noteq> 0 \<Longrightarrow>
   kalman_filter self m =
     Inr (self\<lparr>x := Num (m / C self), cov := Num (Q self / (C self)\<^sup>2)\<rparr>, Num (m / C self))
   \<and> (C self = 1 \<longrightarrow>
        kalman_filter self m = Inr (self\<lparr>x := Num m, cov := Num (Q self)\<rparr>, Num m))"
  by (simp add: kalman_filter_def power2_eq_square)

theorem kalman_filter_init_witness:
  "isnan (x (DataStream_init ''data/data.txt'')) \<and> C (DataStream_init ''data/data.txt'') = 1
   \<and> kalman_filter (DataStream_init ''data/data.txt'') (- 0.09398) =
       Inr ((DataStream_init ''data/data.txt'')\<lparr>x := Num (- 0.09398), cov := Num FILTER_Q\<rparr>,
            Num (- 0.09398))"
  using kalman_filter_init [of "DataStream_init ''data/data.txt''" "- 0.09398"]
  by (simp add: DataStream_init_def)

section \<open>The J2000 epoch\<close>

text \<open>
  Claim C3. \<open>jd_to_datetime\<close> on Julian Day 2451545.0 returns the timestamp
  2000-01-01 12:00:00.000000.
\<close>

theorem jd_to_datetime_J2000:
  "jd_to_datetime 2451545 =
     Inr \<lparr>year = 2000, month = 1, day = 1, hour = 12, minute = 0, second = 0,
           microsecond = 0\<rparr>"
proof -
  have "jd_to_datetime 2451545 =
      datetime_new 2000 1 (py_trunc 1) (py_trunc 12) (py_trunc 0) (py_trunc 0)
        (py_round (0 * 1000000))"
  proof (rule jd_to_datetime_steps)
    show "modf (2451545 + 0.5) = (0.5, 2451545)"
      by (simp add: modf_def py_trunc_nonneg)
    show "py_trunc 2451545 = 2451545"
      by (simp add: py_trunc_nonneg)
    show "jd_B 2451545 = 2451558"
      by (simp add: jd_B_def py_trunc_nonneg)
    show "py_trunc ((of_int (2451558 + 1524) - 122.1) / 365.25) = 6715"
      by (simp add: py_trunc_nonneg)
    show "py_trunc (365.25 * of_int 6715) = 2452653"
      by (simp add: py_trunc_nonneg)
    show "py_trunc (of_int (2451558 + 1524 - 2452653) / 30.6001) = 14"
      by (simp add: py_trunc_nonneg)
    show "modf (of_int (2451558 + 1524 - 2452653) + 0.5
             - of_int (py_trunc (30.6001 * of_int 14))) = (0.5, 1)"
      by (simp add: modf_def py_trunc_nonneg)
    show "modf (0.5 * 24) = (0, 12)"
      by (simp add: modf_def py_trunc_nonneg)
    show "modf (0 * 60) = (0, 0)"
      by (simp add: modf_def py_trunc_nonneg)
    show "modf (0 * 60) = (0, 0)"
      by (simp add: modf_def py_trunc_nonneg)
    show "(1::int) = (if of_int 14 < (13.5 :: real) then 14 - 1 else 14 - 13)"
      by simp
    show "(2000::int) = (if of_int 1 > (2.5 :: real) then 6715 - 4716 else 6715 - 4715)"
      by simp
  qed
  then show ?thesis
    by (simp add: py_trunc_nonneg py_round_def datetime_new_def days_in_month_def is_leap_def)
qed

section \<open>The covariance never goes negative\<close>

lemma kalman_filter_step:
  assumes "x self = Num xv" and "cov self = Num cv" and "A self = 1" and "C self = 1"
    and "cv + R self + Q self \<noteq> 0"
  shows "kalman_filter self m =
     Inr (self\<lparr>x := Num (xv + (cv + R self) * (1 / (cv + R self + Q self)) * (m - xv)),
              cov := Num (cv + R self - (cv + R self) * (1 / (cv + R self + Q self)) * (cv + R self))\<rparr>,
          Num (xv + (cv + R self) * (1 / (cv + R self + Q self)) * (m - xv)))"
  using assms by (simp add: kalman_filter_def)

lemma cov_update_nonneg:
  fixes cv r q :: real
  assumes "0 \<le> cv" "0 < r" "0 < q"
  shows "0 \<le> cv + r - (cv + r) * (1 / (cv + r + q)) * (cv + r)"
proof -
  have pos: "0 < cv + r + q" using assms by simp
  have "cv + r - (cv + r) * (1 / (cv + r + q)) * (cv + r) = (cv + r) * q / (cv + r + q)"
    using pos by (simp add: field_simps)
  moreover have "0 \<le> (cv + r) * q / (cv + r + q)"
    using assms pos by simp
  ultimately show ?thesis by simp
qed

lemma replay_cov_nonneg:
  "x self = Num xv \<Longrightarrow> cov self = Num cv \<Longrightarrow> 0 \<le> cv \<Longrightarrow> A self = 1 \<Longrightarrow> C self = 1 \<Longrightarrow>
   0 < R self \<Longrightarrow> 0 < Q self \<Longrightarrow>
   \<exists>self' ys c. replay self ms = Inr (self', ys) \<and> cov self' = Num c \<and> 0 \<le> c"
proof (induction ms arbitrary: self xv cv)
  case Nil
  then show ?case by simp
next
  case (Cons m ms)
  let ?xv = "xv + (cv + R self) * (1 / (cv + R self + Q self)) * (m - xv)"
  let ?cv = "cv + R self - (cv + R self) * (1 / (cv + R self + Q self)) * (cv + R self)"
  let ?s = "self\<lparr>x := Num ?xv, cov := Num ?cv\<rparr>"
  have nz: "cv + R self + Q self \<noteq> 0" using Cons.prems by simp
  have step: "kalman_filter self m = Inr (?s, Num ?xv)"
    using Cons.prems nz by (intro kalman_filter_step) simp_all
  have c0: "0 \<le> ?cv" using Cons.prems by (intro cov_update_nonneg) simp_all
  have "\<exists>self' ys c. replay ?s ms = Inr (self', ys) \<and> cov self' = Num c \<and> 0 \<le> c"
    using Cons.prems c0 by (intro Cons.IH[of ?s ?xv ?cv]) simp_all
  then show ?case using step by auto
qed

text \<open>
  In exact real arithmetic, without the rounding and the overflow of binary64. On a fresh filter with positive \<open>R\<close> and \<open>Q\<close>, every non-empty sequence of finite
  measurements is processed without an exception and leaves a covariance that is a number
  and is not negative; after the first call alone it is \<open>Q\<close>. The sequence is arbitrary, so
  this holds after every step.
\<close>

theorem covariance_nonneg:
  assumes "fresh_filter self" and "0 < R self" and "0 < Q self" and "ms \<noteq> []"
  shows "\<exists>self' ys c. replay self ms = Inr (self', ys) \<and> cov self' = Num c \<and> 0 \<le> c
            \<and> (length ms = 1 \<longrightarrow> c = Q self)"
proof -
  obtain m rest where ms: "ms = m # rest" using assms(4) by (cases ms) auto
  let ?s = "self\<lparr>x := Num m, cov := Num (Q self)\<rparr>"
  have first: "kalman_filter self m = Inr (?s, Num m)"
    using assms(1) by (simp add: kalman_filter_def fresh_filter_def)
  have "\<exists>self' ys c. replay ?s rest = Inr (self', ys) \<and> cov self' = Num c \<and> 0 \<le> c"
    using assms by (intro replay_cov_nonneg[of ?s m "Q self"]) (simp_all add: fresh_filter_def)
  then obtain self' ys c where r: "replay ?s rest = Inr (self', ys)" "cov self' = Num c" "0 \<le> c"
    by blast
  have "rest = [] \<Longrightarrow> c = Q self" using r by auto
  then show ?thesis using ms first r by auto
qed

theorem covariance_nonneg_witness:
  "fresh_filter (DataStream_init ''data/data.txt'')
   \<and> 0 < R (DataStream_init ''data/data.txt'') \<and> 0 < Q (DataStream_init ''data/data.txt'')
   \<and> (\<exists>self' ys c. replay (DataStream_init ''data/data.txt'') [- 0.09398, - 0.09350]
           = Inr (self', ys) \<and> cov self' = Num c \<and> 0 \<le> c)"
proof -
  have f: "fresh_filter (DataStream_init ''data/data.txt'')"
    by (simp add: fresh_filter_def DataStream_init_def)
  have r: "0 < R (DataStream_init ''data/data.txt'')"
    by (simp add: DataStream_init_def FILTER_R_def)
  have q: "0 < Q (DataStream_init ''data/data.txt'')"
    by (simp add: DataStream_init_def FILTER_Q_def)
  show ?thesis
    using f r q covariance_nonneg [OF f r q, of "[- 0.09398, - 0.09350]"] by auto
qed

section \<open>The covariance does not depend on the measured values\<close>

lemma kalman_filter_cov_indep:
  assumes "isnan (x self) = isnan xb"
  shows "(\<exists>e. kalman_filter self m = Inl e \<and> kalman_filter (self\<lparr>x := xb\<rparr>) m' = Inl e)
   \<or> (\<exists>xa xb' cv. kalman_filter self m = Inr (self\<lparr>x := xa, cov := cv\<rparr>, xa)
         \<and> kalman_filter (self\<lparr>x := xb\<rparr>) m' = Inr (self\<lparr>x := xb', cov := cv\<rparr>, xb')
         \<and> isnan xa = isnan xb')"
proof (cases "x self")
  case NaN
  then have "xb = NaN" using assms by (cases xb) simp_all
  then show ?thesis using NaN
    by (cases "C self = 0") (auto simp add: kalman_filter_def)
next
  case (Num xv)
  then obtain xw where xb: "xb = Num xw" using assms by (cases xb) simp_all
  show ?thesis
  proof (cases "cov self")
    case NaN
    then show ?thesis using Num xb by (auto simp add: kalman_filter_def)
  next
    case (Num cv)
    then show ?thesis using \<open>x self = Num xv\<close> xb
      by (cases "C self * (A self * cv * A self + R self) * C self + Q self = 0")
         (auto simp add: kalman_filter_def)
  qed
qed

lemma replay_cov_indep:
  assumes "length ms = length ms'" and "isnan (x self) = isnan xb"
  shows "(\<exists>e. replay self ms = Inl e \<and> replay (self\<lparr>x := xb\<rparr>) ms' = Inl e)
   \<or> (\<exists>s ys s' ys'. replay self ms = Inr (s, ys) \<and> replay (self\<lparr>x := xb\<rparr>) ms' = Inr (s', ys')
         \<and> cov s = cov s')"
  using assms
proof (induction ms ms' arbitrary: self xb rule: list_induct2)
  case Nil
  then show ?case by simp
next
  case (Cons m ms m' ms')
  from kalman_filter_cov_indep [OF Cons.prems, of m m']
  show ?case
  proof (elim disjE exE conjE)
    fix e
    assume "kalman_filter self m = Inl e" "kalman_filter (self\<lparr>x := xb\<rparr>) m' = Inl e"
    then show ?thesis by simp
  next
    fix xa xb' cv
    assume k1: "kalman_filter self m = Inr (self\<lparr>x := xa, cov := cv\<rparr>, xa)"
      and k2: "kalman_filter (self\<lparr>x := xb\<rparr>) m' = Inr (self\<lparr>x := xb', cov := cv\<rparr>, xb')"
      and n: "isnan xa = isnan xb'"
    let ?s = "self\<lparr>x := xa, cov := cv\<rparr>"
    have s': "self\<lparr>x := xb', cov := cv\<rparr> = ?s\<lparr>x := xb'\<rparr>" by simp
    have "isnan (x ?s) = isnan xb'" using n by simp
    from Cons.IH [OF this]
    show ?thesis
      unfolding replay.simps k1 k2 s' by (auto split: sum.splits)
  qed
qed

text \<open>
  In exact real arithmetic, without the rounding and the overflow of binary64. Two runs from the same filter state over finite measurement sequences of the
  same length either raise the same exception or end with the same covariance: the
  covariance depends on the number of steps and on the parameters, never on the values
  measured. The sequences are arbitrary, so this holds after each step.
\<close>

theorem covariance_measurement_independent:
  assumes "length ms = length ms'"
  shows "(\<exists>e. replay self ms = Inl e \<and> replay self ms' = Inl e)
   \<or> (\<exists>s ys s' ys'. replay self ms = Inr (s, ys) \<and> replay self ms' = Inr (s', ys')
         \<and> cov s = cov s')"
  using replay_cov_indep [OF assms, of self "x self"] by simp

theorem covariance_measurement_independent_witness:
  "length [- 0.09398, - 0.09350 :: real] = length [5, - 3 :: real]
   \<and> (\<exists>s ys s' ys'.
         replay (DataStream_init ''data/data.txt'') [- 0.09398, - 0.09350] = Inr (s, ys)
         \<and> replay (DataStream_init ''data/data.txt'') [5, - 3] = Inr (s', ys')
         \<and> cov s = cov s')"
proof -
  let ?S = "DataStream_init ''data/data.txt''"
  have len: "length [- 0.09398, - 0.09350 :: real] = length [5, - 3 :: real]"
    by simp
  have ok: "\<And>e. replay ?S [- 0.09398, - 0.09350] \<noteq> Inl e"
    by (simp add: kalman_filter_def DataStream_init_def FILTER_R_def FILTER_Q_def)
  show ?thesis
    using len ok covariance_measurement_independent [OF len, of ?S] by auto
qed

section \<open>The estimate stays between the measurements\<close>

lemma blend_between:
  fixes a b k :: real
  assumes "0 \<le> k" and "k \<le> 1"
  shows "min a b \<le> a + k * (b - a) \<and> a + k * (b - a) \<le> max a b"
proof (cases "a \<le> b")
  case True
  then have "0 \<le> k * (b - a)" using assms by simp
  moreover have "k * (b - a) \<le> b - a"
    using True assms by (intro mult_left_le_one_le) simp_all
  ultimately show ?thesis using True by linarith
next
  case False
  then have ba: "0 \<le> a - b" by simp
  have "0 \<le> k * (a - b)" using ba assms by simp
  moreover have "k * (a - b) \<le> a - b"
    using ba assms by (intro mult_left_le_one_le) simp_all
  moreover have "k * (b - a) = - (k * (a - b))" by (simp add: algebra_simps)
  ultimately show ?thesis using False by linarith
qed

lemma gain_unit:
  fixes cv r q :: real
  assumes "0 \<le> cv" "0 < r" "0 < q"
  shows "0 \<le> (cv + r) * (1 / (cv + r + q)) \<and> (cv + r) * (1 / (cv + r + q)) \<le> 1"
  using assms by (simp add: field_simps)

text \<open>For a covariance that is not negative, the gain \<open>k\<close> is strictly between 0 and 1.\<close>

lemma gain_strictly_unit:
  fixes cv r q :: real
  assumes "0 \<le> cv" "0 < r" "0 < q"
  shows "0 < (cv + r) * (1 / (cv + r + q)) \<and> (cv + r) * (1 / (cv + r + q)) < 1"
  using assms by (simp add: field_simps)

lemma replay_between:
  "x self = Num xv \<Longrightarrow> cov self = Num cv \<Longrightarrow> 0 \<le> cv \<Longrightarrow> A self = 1 \<Longrightarrow> C self = 1 \<Longrightarrow>
   0 < R self \<Longrightarrow> 0 < Q self \<Longrightarrow>
   \<exists>self' ys. replay self ms = Inr (self', ys) \<and> length ys = length ms
      \<and> (\<forall>i<length ms. \<exists>e. ys ! i = Num e
            \<and> (\<exists>a\<in>insert xv (set (take (Suc i) ms)). a \<le> e)
            \<and> (\<exists>b\<in>insert xv (set (take (Suc i) ms)). e \<le> b))"
proof (induction ms arbitrary: self xv cv)
  case Nil
  then show ?case by simp
next
  case (Cons m ms)
  let ?k = "(cv + R self) * (1 / (cv + R self + Q self))"
  let ?xv = "xv + ?k * (m - xv)"
  let ?cv = "cv + R self - ?k * (cv + R self)"
  let ?s = "self\<lparr>x := Num ?xv, cov := Num ?cv\<rparr>"
  have nz: "cv + R self + Q self \<noteq> 0" using Cons.prems by simp
  have step: "kalman_filter self m = Inr (?s, Num ?xv)"
    using Cons.prems nz by (intro kalman_filter_step) simp_all
  have c0: "0 \<le> ?cv" using Cons.prems by (intro cov_update_nonneg) simp_all
  have k01: "0 \<le> ?k \<and> ?k \<le> 1" using Cons.prems by (intro gain_unit) simp_all
  have bnd: "min xv m \<le> ?xv \<and> ?xv \<le> max xv m"
    using k01 by (intro blend_between) simp_all
  have lo: "\<exists>a\<in>{xv, m}. a \<le> ?xv" using bnd by (auto simp: min_def split: if_splits)
  have hi: "\<exists>b\<in>{xv, m}. ?xv \<le> b" using bnd by (auto simp: max_def split: if_splits)
  have "\<exists>self' ys. replay ?s ms = Inr (self', ys) \<and> length ys = length ms
      \<and> (\<forall>i<length ms. \<exists>e. ys ! i = Num e
            \<and> (\<exists>a\<in>insert ?xv (set (take (Suc i) ms)). a \<le> e)
            \<and> (\<exists>b\<in>insert ?xv (set (take (Suc i) ms)). e \<le> b))"
    using Cons.prems c0 by (intro Cons.IH[of ?s ?xv ?cv]) simp_all
  then obtain self' ys where r: "replay ?s ms = Inr (self', ys)" "length ys = length ms"
    and b: "\<And>i. i < length ms \<Longrightarrow> \<exists>e. ys ! i = Num e
            \<and> (\<exists>a\<in>insert ?xv (set (take (Suc i) ms)). a \<le> e)
            \<and> (\<exists>b\<in>insert ?xv (set (take (Suc i) ms)). e \<le> b)"
    by blast
  have rep: "replay self (m # ms) = Inr (self', Num ?xv # ys)" using step r by simp
  have "\<exists>e. (Num ?xv # ys) ! i = Num e
            \<and> (\<exists>a\<in>insert xv (set (take (Suc i) (m # ms))). a \<le> e)
            \<and> (\<exists>b\<in>insert xv (set (take (Suc i) (m # ms))). e \<le> b)"
    if "i < length (m # ms)" for i
  proof (cases i)
    case 0
    then show ?thesis using lo hi by auto
  next
    case (Suc j)
    then have "j < length ms" using that by simp
    from b [OF this] obtain e a c where e: "ys ! j = Num e"
      and a: "a \<in> insert ?xv (set (take (Suc j) ms))" "a \<le> e"
      and c: "c \<in> insert ?xv (set (take (Suc j) ms))" "e \<le> c"
      by blast
    have "\<exists>a'\<in>insert xv (set (take (Suc i) (m # ms))). a' \<le> e"
    proof (cases "a = ?xv")
      case True
      then obtain a' where "a' \<in> {xv, m}" "a' \<le> e" using lo a(2) by force
      then show ?thesis using Suc by auto
    next
      case False
      then show ?thesis using a Suc by auto
    qed
    moreover have "\<exists>c'\<in>insert xv (set (take (Suc i) (m # ms))). e \<le> c'"
    proof (cases "c = ?xv")
      case True
      then obtain c' where "c' \<in> {xv, m}" "e \<le> c'" using hi c(2) by force
      then show ?thesis using Suc by auto
    next
      case False
      then show ?thesis using c Suc by auto
    qed
    ultimately show ?thesis using e Suc by simp
  qed
  then show ?case using rep r(2) by simp
qed

text \<open>
  In exact real arithmetic, without the rounding and the overflow of binary64. On a fresh filter with positive \<open>R\<close> and \<open>Q\<close>, every non-empty sequence of finite
  measurements is processed without an exception, and the estimate returned by step \<open>i\<close> lies
  between the least and the greatest of the measurements seen up to that step.
\<close>

theorem estimate_between:
  assumes "fresh_filter self" and "0 < R self" and "0 < Q self" and "ms \<noteq> []"
  shows "\<exists>self' ys. replay self ms = Inr (self', ys) \<and> length ys = length ms
      \<and> (\<forall>i<length ms. \<exists>e. ys ! i = Num e
            \<and> Min (set (take (Suc i) ms)) \<le> e \<and> e \<le> Max (set (take (Suc i) ms)))"
proof -
  obtain m rest where ms: "ms = m # rest" using assms(4) by (cases ms) auto
  let ?s = "self\<lparr>x := Num m, cov := Num (Q self)\<rparr>"
  have first: "kalman_filter self m = Inr (?s, Num m)"
    using assms(1) by (simp add: kalman_filter_def fresh_filter_def)
  have "\<exists>self' ys. replay ?s rest = Inr (self', ys) \<and> length ys = length rest
      \<and> (\<forall>i<length rest. \<exists>e. ys ! i = Num e
            \<and> (\<exists>a\<in>insert m (set (take (Suc i) rest)). a \<le> e)
            \<and> (\<exists>b\<in>insert m (set (take (Suc i) rest)). e \<le> b))"
    using assms by (intro replay_between[of ?s m "Q self"]) (simp_all add: fresh_filter_def)
  then obtain self' ys where r: "replay ?s rest = Inr (self', ys)" "length ys = length rest"
    and b: "\<And>i. i < length rest \<Longrightarrow> \<exists>e. ys ! i = Num e
            \<and> (\<exists>a\<in>insert m (set (take (Suc i) rest)). a \<le> e)
            \<and> (\<exists>b\<in>insert m (set (take (Suc i) rest)). e \<le> b)"
    by blast
  have rep: "replay self ms = Inr (self', Num m # ys)" using ms first r by simp
  have "\<exists>e. (Num m # ys) ! i = Num e
            \<and> Min (set (take (Suc i) ms)) \<le> e \<and> e \<le> Max (set (take (Suc i) ms))"
    if "i < length ms" for i
  proof (cases i)
    case 0
    then show ?thesis using ms by simp
  next
    case (Suc j)
    then have "j < length rest" using that ms by simp
    from b [OF this] obtain e where e: "ys ! j = Num e"
      and a: "\<exists>a\<in>insert m (set (take (Suc j) rest)). a \<le> e"
      and c: "\<exists>b\<in>insert m (set (take (Suc j) rest)). e \<le> b"
      by blast
    have set_eq: "set (take (Suc i) ms) = insert m (set (take (Suc j) rest))"
      using ms Suc by simp
    have fin: "finite (set (take (Suc i) ms))" and ne: "set (take (Suc i) ms) \<noteq> {}"
      using ms by simp_all
    have "Min (set (take (Suc i) ms)) \<le> e"
      using a fin ne unfolding set_eq by (subst Min_le_iff) simp_all
    moreover have "e \<le> Max (set (take (Suc i) ms))"
      using c fin ne unfolding set_eq by (subst Max_ge_iff) simp_all
    ultimately show ?thesis using e Suc by simp
  qed
  then show ?thesis using rep r(2) ms by simp
qed

theorem estimate_between_witness:
  "fresh_filter (DataStream_init ''data/data.txt'')
   \<and> 0 < R (DataStream_init ''data/data.txt'') \<and> 0 < Q (DataStream_init ''data/data.txt'')
   \<and> (\<exists>self' e. replay (DataStream_init ''data/data.txt'') [- 0.09398, - 0.09350]
           = Inr (self', [Num (- 0.09398), Num e]) \<and> - 0.09398 \<le> e \<and> e \<le> - 0.09350)"
proof -
  let ?S = "DataStream_init ''data/data.txt''"
  have f: "fresh_filter ?S"
    by (simp add: fresh_filter_def DataStream_init_def)
  have r: "0 < R ?S"
    by (simp add: DataStream_init_def FILTER_R_def)
  have q: "0 < Q ?S"
    by (simp add: DataStream_init_def FILTER_Q_def)
  have ne: "[- 0.09398, - 0.09350 :: real] \<noteq> []" by simp
  from estimate_between [OF f r q ne]
  obtain self' ys where rep: "replay ?S [- 0.09398, - 0.09350] = Inr (self', ys)"
    and len: "length ys = 2"
    and b: "\<forall>i<2. \<exists>e. ys ! i = Num e
            \<and> Min (set (take (Suc i) [- 0.09398, - 0.09350 :: real])) \<le> e
            \<and> e \<le> Max (set (take (Suc i) [- 0.09398, - 0.09350 :: real]))"
    by auto
  obtain y0 y1 where ys: "ys = [y0, y1]"
    using len by (cases ys; cases "tl ys") auto
  have "y0 = Num (- 0.09398)"
    using b ys by (auto dest!: spec[of _ 0])
  moreover obtain e where "y1 = Num e" "- 0.09398 \<le> e" "e \<le> - 0.09350"
    using b ys by (auto dest!: spec[of _ 1])
  ultimately show ?thesis using f r q rep ys by auto
qed

section \<open>A day number and a fraction of a day\<close>

text \<open>
  For a non-negative integral day number \<open>I\<close> and a fraction \<open>F\<close> of a day, the date comes
  from \<open>I\<close> alone and the time of day from \<open>F\<close> alone.
\<close>

lemma py_trunc_of_int: "py_trunc (of_int n) = n"
  by (simp add: py_trunc_def)

lemma modf_nonneg: "0 \<le> v \<Longrightarrow> modf v = (frac v, of_int \<lfloor>v\<rfloor>)"
  by (simp add: modf_def py_trunc_nonneg frac_def)

lemma modf_int_plus_frac:
  assumes "0 \<le> n" and "0 \<le> f" and "f < 1"
  shows "modf (of_int n + f) = (f, of_int n)"
proof -
  have fl: "\<lfloor>of_int n + f\<rfloor> = n" using assms by (intro floor_unique) simp_all
  have "0 \<le> of_int n + f" using assms by simp
  then show ?thesis using fl by (simp add: modf_nonneg frac_def)
qed

lemma jd_to_datetime_split:
  assumes "0 \<le> I" and "0 \<le> F" and "F < 1"
    and "jd_B I = Bv"
    and "py_trunc ((of_int (Bv + 1524) - 122.1) / 365.25) = D"
    and "py_trunc (365.25 * of_int D) = E"
    and "py_trunc (of_int (Bv + 1524 - E) / 30.6001) = G"
    and "dd = Bv + 1524 - E - py_trunc (30.6001 * of_int G)" and "0 \<le> dd"
    and "mo = (if of_int G < (13.5 :: real) then G - 1 else G - 13)"
    and "y = (if of_int mo > (2.5 :: real) then D - 4716 else D - 4715)"
  shows "jd_to_datetime (of_int I + F - 0.5) =
     datetime_new y mo dd \<lfloor>F * 24\<rfloor> \<lfloor>frac (F * 24) * 60\<rfloor> \<lfloor>frac (frac (F * 24) * 60) * 60\<rfloor>
       (py_round (frac (frac (frac (F * 24) * 60) * 60) * 1000000))"
proof -
  have "jd_to_datetime (of_int I + F - 0.5) =
     datetime_new y mo (py_trunc (of_int dd)) (py_trunc (of_int \<lfloor>F * 24\<rfloor>))
       (py_trunc (of_int \<lfloor>frac (F * 24) * 60\<rfloor>))
       (py_trunc (of_int \<lfloor>frac (frac (F * 24) * 60) * 60\<rfloor>))
       (py_round (frac (frac (frac (F * 24) * 60) * 60) * 1000000))"
  proof (rule jd_to_datetime_steps)
    show "modf (of_int I + F - 0.5 + 0.5) = (F, of_int I)"
      using modf_int_plus_frac [OF assms(1-3)] by simp
    show "py_trunc (of_int I) = I" by (rule py_trunc_of_int)
    show "jd_B I = Bv" by fact
    show "py_trunc ((of_int (Bv + 1524) - 122.1) / 365.25) = D" by fact
    show "py_trunc (365.25 * of_int D) = E" by fact
    show "py_trunc (of_int (Bv + 1524 - E) / 30.6001) = G" by fact
    have eq: "of_int (Bv + 1524 - E) + F - of_int (py_trunc (30.6001 * of_int G)) = of_int dd + F"
      unfolding assms(8) by simp
    show "modf (of_int (Bv + 1524 - E) + F - of_int (py_trunc (30.6001 * of_int G)))
        = (F, of_int dd)"
      unfolding eq by (rule modf_int_plus_frac [OF assms(9) assms(2,3)])
    show "modf (F * 24) = (frac (F * 24), of_int \<lfloor>F * 24\<rfloor>)"
      using assms(2) by (intro modf_nonneg) simp
    show "modf (frac (F * 24) * 60) = (frac (frac (F * 24) * 60), of_int \<lfloor>frac (F * 24) * 60\<rfloor>)"
      by (intro modf_nonneg) simp
    show "modf (frac (frac (F * 24) * 60) * 60)
        = (frac (frac (frac (F * 24) * 60) * 60), of_int \<lfloor>frac (frac (F * 24) * 60) * 60\<rfloor>)"
      by (intro modf_nonneg) simp
    show "mo = (if of_int G < (13.5 :: real) then G - 1 else G - 13)" by fact
    show "y = (if of_int mo > (2.5 :: real) then D - 4716 else D - 4715)" by fact
  qed
  then show ?thesis by (simp only: py_trunc_of_int)
qed

lemma day_2458126:
  assumes "0 \<le> F" and "F < 1"
  shows "jd_to_datetime (of_int 2458126 + F - 0.5) =
     datetime_new 2018 1 7 \<lfloor>F * 24\<rfloor> \<lfloor>frac (F * 24) * 60\<rfloor> \<lfloor>frac (frac (F * 24) * 60) * 60\<rfloor>
       (py_round (frac (frac (frac (F * 24) * 60) * 60) * 1000000))"
proof (rule jd_to_datetime_split [OF _ assms])
  show "(0::int) \<le> 2458126" by simp
  show "jd_B 2458126 = 2458139" by (simp add: jd_B_def py_trunc_nonneg)
  show "py_trunc ((of_int (2458139 + 1524) - 122.1) / 365.25) = 6733" by (simp add: py_trunc_nonneg)
  show "py_trunc (365.25 * of_int 6733) = 2459228" by (simp add: py_trunc_nonneg)
  show "py_trunc (of_int (2458139 + 1524 - 2459228) / 30.6001) = 14" by (simp add: py_trunc_nonneg)
  show "(7::int) = 2458139 + 1524 - 2459228 - py_trunc (30.6001 * of_int 14)" by (simp add: py_trunc_nonneg)
  show "(0::int) \<le> 7" by simp
  show "(1::int) = (if of_int 14 < (13.5 :: real) then 14 - 1 else 14 - 13)" by simp
  show "(2018::int) = (if of_int 1 > (2.5 :: real) then 6733 - 4716 else 6733 - 4715)" by simp
qed

lemma scenario_ts1: "jd_to_datetime 2458126.22243 =
   Inr \<lparr>year = 2018, month = 1, day = 7, hour = 17, minute = 20, second = 17, microsecond = 952000\<rparr>"
proof -
  have main: "jd_to_datetime (of_int 2458126 + 0.72243 - 0.5) =
     datetime_new 2018 1 7 \<lfloor>0.72243 * 24 :: real\<rfloor> \<lfloor>frac (0.72243 * 24 :: real) * 60\<rfloor>
       \<lfloor>frac (frac (0.72243 * 24 :: real) * 60) * 60\<rfloor>
       (py_round (frac (frac (frac (0.72243 * 24 :: real) * 60) * 60) * 1000000))"
    by (rule day_2458126) simp_all
  have f1: "frac (0.72243 * 24 :: real) = 0.33832" by (simp add: frac_def)
  have f2: "frac (0.33832 * 60 :: real) = 0.2992" by (simp add: frac_def)
  have f3: "frac (0.2992 * 60 :: real) = 0.952" by (simp add: frac_def)
  show ?thesis
    using main [unfolded f1 f2 f3]
    by (simp add: py_round_def datetime_new_def days_in_month_def is_leap_def)
qed

section \<open>The two-record scenario\<close>

lemma scenario_ts2: "jd_to_datetime 2458126.23000 =
   Inr \<lparr>year = 2018, month = 1, day = 7, hour = 17, minute = 31, second = 12, microsecond = 0\<rparr>"
proof -
  have main: "jd_to_datetime (of_int 2458126 + 0.73 - 0.5) =
     datetime_new 2018 1 7 \<lfloor>0.73 * 24 :: real\<rfloor> \<lfloor>frac (0.73 * 24 :: real) * 60\<rfloor>
       \<lfloor>frac (frac (0.73 * 24 :: real) * 60) * 60\<rfloor>
       (py_round (frac (frac (frac (0.73 * 24 :: real) * 60) * 60) * 1000000))"
    by (rule day_2458126) simp_all
  have f1: "frac (0.73 * 24 :: real) = 0.52" by (simp add: frac_def)
  have f2: "frac (0.52 * 60 :: real) = 0.2" by (simp add: frac_def)
  have f3: "frac (0.2 * 60 :: real) = 0" by (simp add: frac_def)
  show ?thesis
    using main [unfolded f1 f2 f3]
    by (simp add: py_round_def datetime_new_def days_in_month_def is_leap_def)
qed

lemma scenario_ts1_eq:
  "t = 2458126.22243 \<Longrightarrow> jd_to_datetime t =
   Inr \<lparr>year = 2018, month = 1, day = 7, hour = 17, minute = 20, second = 17, microsecond = 952000\<rparr>"
  by (simp only: scenario_ts1)

lemma scenario_ts2_eq:
  "t = 2458126.23000 \<Longrightarrow> jd_to_datetime t =
   Inr \<lparr>year = 2018, month = 1, day = 7, hour = 17, minute = 31, second = 12, microsecond = 0\<rparr>"
  by (simp only: scenario_ts2)

lemma scenario_load:
  "load_data (DataStream_init fn)
      [Row 2458126.22243 (- 0.09398) d1, Row 2458126.23000 (- 0.09350) d2] =
   Inr ((DataStream_init fn)
        \<lparr>data_stream :=
           [\<lparr>ts = 2458126.22243, mag = - 0.09398, dif = d1, f_mag = Num (- 0.09398),
             dt = \<lparr>year = 2018, month = 1, day = 7, hour = 17, minute = 20, second = 17,
                    microsecond = 952000\<rparr>,
             dt_cor = \<lparr>year = 2018, month = 1, day = 7, hour = 17, minute = 20, second = 17,
                    microsecond = 952000\<rparr>\<rparr>,
            \<lparr>ts = 2458126.23000, mag = - 0.09350, dif = d2,
             f_mag = Num (- 0.09398 + 0.102 * (1 / 0.202) * (- 0.09350 - (- 0.09398))),
             dt = \<lparr>year = 2018, month = 1, day = 7, hour = 17, minute = 31, second = 12,
                    microsecond = 0\<rparr>,
             dt_cor = \<lparr>year = 2018, month = 1, day = 7, hour = 17, minute = 31, second = 12,
                    microsecond = 0\<rparr>\<rparr>],
         cov := Num (0.102 - 0.102 * (1 / 0.202) * 0.102),
         x := Num (- 0.09398 + 0.102 * (1 / 0.202) * (- 0.09350 - (- 0.09398)))\<rparr>)"
  by (simp add: load_data_def kalman_filter_def DataStream_init_def FILTER_R_def FILTER_Q_def
      TIME_CRT_def scenario_ts1_eq scenario_ts2_eq)

text \<open>
  Claim C8. With \<open>R = 0.002\<close> and \<open>Q = 0.1\<close>, loading the two records with timestamps
  2458126.22243 and 2458126.23000 and magnitudes -0.09398 and -0.09350 succeeds; the first
  filtered magnitude is the first raw magnitude, and the second lies strictly between the
  two raw magnitudes.
\<close>

theorem end_to_end_scenario:
  "R (DataStream_init fn) = 0.002 \<and> Q (DataStream_init fn) = 0.1
   \<and> (\<exists>s r1 r2 e.
         load_data (DataStream_init fn)
           [Row 2458126.22243 (- 0.09398) d1, Row 2458126.23000 (- 0.09350) d2] = Inr s
         \<and> data_stream s = [r1, r2]
         \<and> f_mag r1 = Num (- 0.09398)
         \<and> f_mag r2 = Num e \<and> - 0.09398 < e \<and> e < - 0.09350)"
proof -
  have "- 0.09398 < - 0.09398 + 0.102 * (1 / 0.202) * (- 0.09350 - (- 0.09398 :: real))"
    by simp
  moreover have "- 0.09398 + 0.102 * (1 / 0.202) * (- 0.09350 - (- 0.09398 :: real)) < - 0.09350"
    by simp
  ultimately show ?thesis
    unfolding scenario_load
    by (simp add: DataStream_init_def FILTER_R_def FILTER_Q_def)
qed

section \<open>Causality of the filtered series\<close>

lemma replay_length: "replay self ms = Inr (s, ys) \<Longrightarrow> length ys = length ms"
  by (induction ms arbitrary: self s ys) (auto split: sum.splits)

lemma replay_prefix:
  "replay self (ms1 @ ms2) = Inr (s, ys) \<Longrightarrow>
   \<exists>s1. replay self ms1 = Inr (s1, take (length ms1) ys)"
proof (induction ms1 arbitrary: self s ys)
  case Nil
  then show ?case by simp
next
  case (Cons m ms1)
  from Cons.prems obtain s' y ys' where k: "kalman_filter self m = Inr (s', y)"
    and r: "replay s' (ms1 @ ms2) = Inr (s, ys')" and ys: "ys = y # ys'"
    by (auto split: sum.splits)
  from Cons.IH [OF r] obtain s1 where "replay s' ms1 = Inr (s1, take (length ms1) ys')"
    by blast
  then show ?case using k ys by simp
qed

lemma load_lines_replay:
  "load_lines self lines acc = Inr (s, recs) \<Longrightarrow>
   \<exists>new. recs = acc @ new \<and> replay self (magnitudes lines) = Inr (s, map f_mag new)"
proof (induction self lines acc rule: load_lines.induct)
  case (1 self parsed_data)
  then show ?case by simp
next
  case (2 self rest parsed_data)
  then show ?case by simp
next
  case (3 self t m d rest parsed_data)
  from "3.prems" obtain self' fm d1 d2 where k: "kalman_filter self m = Inr (self', fm)"
    and j1: "jd_to_datetime t = Inr d1" and j2: "jd_to_datetime (t - TIME_CRT) = Inr d2"
    and rest: "load_lines self' rest
        (parsed_data @ [\<lparr>ts = t, mag = m, dif = d, f_mag = fm, dt = d1, dt_cor = d2\<rparr>]) = Inr (s, recs)"
    by (auto split: sum.splits)
  from "3.IH" [OF k refl j1 j2 rest] obtain new
    where new: "recs = (parsed_data @ [\<lparr>ts = t, mag = m, dif = d, f_mag = fm, dt = d1, dt_cor = d2\<rparr>]) @ new"
      and rep: "replay self' (magnitudes rest) = Inr (s, map f_mag new)"
    by blast
  show ?case
    using k rep new
    by (intro exI[of _ "\<lparr>ts = t, mag = m, dif = d, f_mag = fm, dt = d1, dt_cor = d2\<rparr> # new"]) simp
qed

text \<open>
  Claim C6. When \<open>load_data\<close> succeeds, it has one record for each data line, and the filtered
  magnitude of record \<open>i\<close> is the last value returned when only the magnitudes of records
  \<open>0\<close> to \<open>i\<close> are fed, in order, to a filter in the state the run started from (a fresh
  one in the program). So it depends on those magnitudes only.
\<close>

theorem filtered_magnitude_causal:
  assumes "load_data self lines = Inr self'" and "i < length (data_stream self')"
  shows "length (data_stream self') = length (magnitudes lines)
     \<and> (\<exists>s ys. replay self (take (Suc i) (magnitudes lines)) = Inr (s, ys)
          \<and> length ys = Suc i \<and> last ys = f_mag (data_stream self' ! i))"
proof -
  from assms(1) obtain s0 recs where ll: "load_lines self lines [] = Inr (s0, recs)"
    and ds: "data_stream self' = recs"
    by (auto simp: load_data_def split: sum.splits if_splits)
  from load_lines_replay [OF ll]
  have rep: "replay self (magnitudes lines) = Inr (s0, map f_mag recs)" by simp
  have len: "length recs = length (magnitudes lines)"
    using replay_length [OF rep] by simp
  have i: "i < length recs" using assms(2) ds by simp
  have "replay self (take (Suc i) (magnitudes lines) @ drop (Suc i) (magnitudes lines))
      = Inr (s0, map f_mag recs)"
    using rep by simp
  from replay_prefix [OF this] obtain s1 where
    p: "replay self (take (Suc i) (magnitudes lines))
        = Inr (s1, take (length (take (Suc i) (magnitudes lines))) (map f_mag recs))"
    by blast
  have l: "length (take (Suc i) (magnitudes lines)) = Suc i" using i len by simp
  have t: "take (Suc i) (map f_mag recs) = take i (map f_mag recs) @ [f_mag (recs ! i)]"
    using i by (simp add: take_Suc_conv_app_nth)
  show ?thesis
    using p i len ds unfolding l t by simp
qed

theorem filtered_magnitude_causal_witness:
  "(\<exists>self'. load_data (DataStream_init ''data/data.txt'')
        [Row 2458126.22243 (- 0.09398) 0.0029, Row 2458126.23000 (- 0.09350) 0.0029] = Inr self'
      \<and> 1 < length (data_stream self')
      \<and> (\<exists>s ys. replay (DataStream_init ''data/data.txt'') [- 0.09398, - 0.09350] = Inr (s, ys)
            \<and> last ys = f_mag (data_stream self' ! 1)))"
proof -
  let ?S = "DataStream_init ''data/data.txt''"
  let ?L = "[Row 2458126.22243 (- 0.09398) 0.0029, Row 2458126.23000 (- 0.09350) 0.0029]"
  obtain self' where ld: "load_data ?S ?L = Inr self'" and n: "1 < length (data_stream self')"
    unfolding scenario_load by simp
  from filtered_magnitude_causal [OF ld n]
  show ?thesis using ld n by auto
qed

section \<open>Convergence on a constant measurement\<close>

lemma cov_update_eq:
  fixes cv r q :: real
  assumes "0 \<le> cv" "0 < r" "0 < q"
  shows "cv + r - (cv + r) * (1 / (cv + r + q)) * (cv + r) = (cv + r) * q / (cv + r + q)"
proof -
  have "0 < cv + r + q" using assms by simp
  then show ?thesis by (simp add: field_simps)
qed

lemma fixed_point_props:
  fixes r q :: real
  assumes "0 < r" "0 < q"
  defines "cs \<equiv> (sqrt (r\<^sup>2 + 4 * r * q) - r) / 2"
  shows "0 < cs" and "cs < q" and "cs = (cs + r) * q / (cs + r + q)"
proof -
  have rq: "0 < r * q" using assms(1,2) by simp
  have "r\<^sup>2 < r\<^sup>2 + 4 * r * q" using rq by (simp add: mult.commute)
  then have "sqrt (r\<^sup>2) < sqrt (r\<^sup>2 + 4 * r * q)" by (simp only: real_sqrt_less_iff)
  then have s1: "r < sqrt (r\<^sup>2 + 4 * r * q)" using assms(1) by simp
  then show pos: "0 < cs" by (simp add: cs_def)
  have "r\<^sup>2 + 4 * r * q < (r + 2 * q)\<^sup>2"
    using assms(1,2) by (simp add: power2_eq_square algebra_simps)
  then have "sqrt (r\<^sup>2 + 4 * r * q) < sqrt ((r + 2 * q)\<^sup>2)" by (simp only: real_sqrt_less_iff)
  then have "sqrt (r\<^sup>2 + 4 * r * q) < r + 2 * q" using assms(1,2) by simp
  then show "cs < q" by (simp add: cs_def)
  have nn: "0 \<le> r\<^sup>2 + 4 * r * q" using assms(1,2) by simp
  have sq: "(sqrt (r\<^sup>2 + 4 * r * q))\<^sup>2 = r\<^sup>2 + 4 * r * q"
    using nn by simp
  have e: "2 * cs + r = sqrt (r\<^sup>2 + 4 * r * q)"
    unfolding cs_def by (simp add: field_simps)
  have "(2 * cs + r)\<^sup>2 = r\<^sup>2 + 4 * r * q"
    unfolding e by (rule sq)
  then have quad: "cs * cs + r * cs = r * q"
    by (simp add: power2_eq_square algebra_simps)
  have "0 < cs + r + q" using pos assms(1,2) by linarith
  moreover have "cs * (cs + r + q) = (cs + r) * q"
    using quad by (simp add: algebra_simps)
  ultimately show "cs = (cs + r) * q / (cs + r + q)"
    by (simp add: field_simps)
qed

lemma contraction_step:
  fixes c cs r q :: real
  assumes "0 < r" "0 < q" "0 < cs" "cs = (cs + r) * q / (cs + r + q)" "cs < c"
  shows "cs < (c + r) * q / (c + r + q)"
    and "(c + r) * q / (c + r + q) - cs \<le> (q\<^sup>2 / (r + q)\<^sup>2) * (c - cs)"
proof -
  have p1: "0 < c + r + q" and p2: "0 < cs + r + q" using assms by simp_all
  have "(c + r) * q / (c + r + q) - (cs + r) * q / (cs + r + q)
      = q\<^sup>2 * (c - cs) / ((c + r + q) * (cs + r + q))"
    using p1 p2 by (simp add: field_simps power2_eq_square)
  then have diff: "(c + r) * q / (c + r + q) - cs
      = q\<^sup>2 * (c - cs) / ((c + r + q) * (cs + r + q))"
    using assms(4) by simp
  have num: "0 < q\<^sup>2 * (c - cs)" using assms by simp
  have den: "0 < (c + r + q) * (cs + r + q)" using p1 p2 by simp
  have "0 < q\<^sup>2 * (c - cs) / ((c + r + q) * (cs + r + q))"
    using num den by simp
  then show "cs < (c + r) * q / (c + r + q)" using diff by simp
  have rq: "0 < r + q" using assms by simp
  have "(r + q) * (r + q) \<le> (c + r + q) * (cs + r + q)"
    using assms rq by (intro mult_mono) simp_all
  then have le: "(r + q)\<^sup>2 \<le> (c + r + q) * (cs + r + q)" by (simp add: power2_eq_square)
  have "q\<^sup>2 * (c - cs) / ((c + r + q) * (cs + r + q)) \<le> q\<^sup>2 * (c - cs) / (r + q)\<^sup>2"
    using le num den rq by (intro divide_left_mono) simp_all
  then show "(c + r) * q / (c + r + q) - cs \<le> (q\<^sup>2 / (r + q)\<^sup>2) * (c - cs)"
    using diff by simp
qed

lemma ratio_lt_one:
  fixes r q :: real
  assumes "0 < r" "0 < q"
  shows "0 \<le> q\<^sup>2 / (r + q)\<^sup>2" and "q\<^sup>2 / (r + q)\<^sup>2 < 1"
proof -
  show "0 \<le> q\<^sup>2 / (r + q)\<^sup>2" by simp
  have "q\<^sup>2 < (r + q)\<^sup>2" using assms by (intro power_strict_mono) simp_all
  moreover have "0 < (r + q)\<^sup>2" using assms by simp
  ultimately show "q\<^sup>2 / (r + q)\<^sup>2 < 1" by simp
qed

lemma cov_next_eq:
  fixes c r q :: real
  assumes "0 \<le> c" "0 < r" "0 < q"
  shows "cov_next r q c = (c + r) * q / (c + r + q)"
  unfolding cov_next_def using assms by (rule cov_update_eq)

lemma cov_next_nonneg:
  fixes c r q :: real
  assumes "0 \<le> c" "0 < r" "0 < q"
  shows "0 \<le> cov_next r q c"
  unfolding cov_next_def using assms by (rule cov_update_nonneg)

lemma cov_seq_bounds:
  fixes r q cs :: real
  assumes "0 < r" "0 < q" "0 < cs" "cs < q" "cs = (cs + r) * q / (cs + r + q)"
  shows "cs < (cov_next r q ^^ n) q
     \<and> (cov_next r q ^^ n) q - cs \<le> (q\<^sup>2 / (r + q)\<^sup>2) ^ n * (q - cs)"
proof (induction n)
  case 0
  then show ?case using assms by simp
next
  case (Suc n)
  let ?c = "(cov_next r q ^^ n) q"
  let ?rho = "q\<^sup>2 / (r + q)\<^sup>2"
  have c: "cs < ?c" and b: "?c - cs \<le> ?rho ^ n * (q - cs)" using Suc.IH by simp_all
  have c0: "0 \<le> ?c" using c assms(3) by simp
  have upd: "cov_next r q ?c = (?c + r) * q / (?c + r + q)"
    using c0 assms(1,2) by (rule cov_next_eq)
  have s1: "cs < (?c + r) * q / (?c + r + q)"
    and s2: "(?c + r) * q / (?c + r + q) - cs \<le> ?rho * (?c - cs)"
    using contraction_step [OF assms(1,2,3,5) c] by simp_all
  have rho0: "0 \<le> ?rho" by simp
  have "?rho * (?c - cs) \<le> ?rho * (?rho ^ n * (q - cs))"
    using b rho0 by (rule mult_left_mono)
  then have "(?c + r) * q / (?c + r + q) - cs \<le> ?rho ^ Suc n * (q - cs)"
    using s2 by (simp add: mult.assoc)
  then show ?case using s1 upd by simp
qed

lemma cov_seq_decreasing:
  fixes r q cs :: real
  assumes "0 < r" "0 < q" "0 < cs" "cs < q" "cs = (cs + r) * q / (cs + r + q)"
  shows "(cov_next r q ^^ Suc n) q < (cov_next r q ^^ n) q"
proof -
  let ?c = "(cov_next r q ^^ n) q"
  let ?rho = "q\<^sup>2 / (r + q)\<^sup>2"
  have c: "cs < ?c" using cov_seq_bounds [OF assms, of n] by simp
  have c0: "0 \<le> ?c" using c assms(3) by simp
  have upd: "cov_next r q ?c = (?c + r) * q / (?c + r + q)"
    using c0 assms(1,2) by (rule cov_next_eq)
  have s2: "(?c + r) * q / (?c + r + q) - cs \<le> ?rho * (?c - cs)"
    using contraction_step [OF assms(1,2,3,5) c] by simp
  have "?rho * (?c - cs) < 1 * (?c - cs)"
    using ratio_lt_one(2) [OF assms(1,2)] c by (intro mult_strict_right_mono) simp_all
  then have "(?c + r) * q / (?c + r + q) < ?c" using s2 by simp
  then show ?thesis using upd by simp
qed

lemma cov_seq_limit:
  fixes r q cs :: real
  assumes "0 < r" "0 < q" "0 < cs" "cs < q" "cs = (cs + r) * q / (cs + r + q)"
  shows "(\<lambda>n. (cov_next r q ^^ n) q) \<longlonglongrightarrow> cs"
proof -
  let ?rho = "q\<^sup>2 / (r + q)\<^sup>2"
  have "(\<lambda>n. ?rho ^ n) \<longlonglongrightarrow> 0"
    using ratio_lt_one [OF assms(1,2)] by (intro LIMSEQ_realpow_zero) simp_all
  then have "(\<lambda>n. ?rho ^ n * (q - cs)) \<longlonglongrightarrow> 0 * (q - cs)"
    by (intro tendsto_mult tendsto_const)
  then have up: "(\<lambda>n. ?rho ^ n * (q - cs)) \<longlonglongrightarrow> 0" by simp
  have lo: "(\<lambda>n. 0 :: real) \<longlonglongrightarrow> 0" by simp
  have "(\<lambda>n. (cov_next r q ^^ n) q - cs) \<longlonglongrightarrow> 0"
  proof (rule tendsto_sandwich [OF _ _ lo up])
    show "\<forall>\<^sub>F n in sequentially. 0 \<le> (cov_next r q ^^ n) q - cs"
      using cov_seq_bounds [OF assms] by (intro always_eventually allI) (simp add: less_imp_le)
    show "\<forall>\<^sub>F n in sequentially. (cov_next r q ^^ n) q - cs \<le> ?rho ^ n * (q - cs)"
      using cov_seq_bounds [OF assms] by (intro always_eventually allI) simp
  qed
  then show ?thesis by (simp only: LIM_zero_iff)
qed

lemma replay_constant:
  "x self = Num m \<Longrightarrow> cov self = Num cv \<Longrightarrow> 0 \<le> cv \<Longrightarrow> A self = 1 \<Longrightarrow> C self = 1 \<Longrightarrow>
   0 < R self \<Longrightarrow> 0 < Q self \<Longrightarrow>
   \<exists>s. replay self (replicate n m) = Inr (s, replicate n (Num m)) \<and> x s = Num m
       \<and> cov s = Num ((cov_next (R self) (Q self) ^^ n) cv)"
proof (induction n arbitrary: self cv)
  case 0
  then show ?case by simp
next
  case (Suc n)
  let ?cv = "cov_next (R self) (Q self) cv"
  let ?s = "self\<lparr>x := Num m, cov := Num ?cv\<rparr>"
  have nz: "cv + R self + Q self \<noteq> 0" using Suc.prems by simp
  have step: "kalman_filter self m = Inr (?s, Num m)"
    using kalman_filter_step [OF Suc.prems(1,2,4,5) nz, of m] by (simp add: cov_next_def)
  have c0: "0 \<le> ?cv"
    using Suc.prems by (intro cov_next_nonneg) simp_all
  have "\<exists>s. replay ?s (replicate n m) = Inr (s, replicate n (Num m)) \<and> x s = Num m
       \<and> cov s = Num ((cov_next (R ?s) (Q ?s) ^^ n) ?cv)"
    using Suc.prems c0 by (intro Suc.IH) simp_all
  then obtain s where r: "replay ?s (replicate n m) = Inr (s, replicate n (Num m))"
    and xs: "x s = Num m" and cs: "cov s = Num ((cov_next (R self) (Q self) ^^ n) ?cv)"
    by auto
  have "(cov_next (R self) (Q self) ^^ n) ?cv = (cov_next (R self) (Q self) ^^ Suc n) cv"
    by (simp only: funpow_Suc_right o_apply)
  then show ?case using step r xs cs by simp
qed

text \<open>
  In exact real arithmetic, without the rounding and the overflow of binary64. Feeding the same measurement \<open>m\<close> again and again to a fresh filter with positive
  \<open>R\<close> and \<open>Q\<close> never raises; the covariance after call \<open>n + 1\<close> is a strictly decreasing
  sequence that converges to a value \<open>cstar\<close> with
  \<open>cstar = (A\<^sup>2 * cstar + R) * Q / (A\<^sup>2 * cstar + R + Q)\<close>, and the estimates converge to \<open>m\<close>.
\<close>

theorem constant_measurement_converges:
  assumes "fresh_filter self" and "0 < R self" and "0 < Q self"
  shows "\<exists>c e cstar.
      (\<forall>n. \<exists>s ys. replay self (replicate (Suc n) m) = Inr (s, ys)
             \<and> cov s = Num (c n) \<and> x s = Num (e n) \<and> last ys = Num (e n))
    \<and> (\<forall>n. c (Suc n) < c n)
    \<and> c \<longlonglongrightarrow> cstar
    \<and> cstar = ((A self)\<^sup>2 * cstar + R self) * Q self / ((A self)\<^sup>2 * cstar + R self + Q self)
    \<and> e \<longlonglongrightarrow> m"
proof -
  let ?r = "R self" and ?q = "Q self"
  let ?cs = "(sqrt (?r\<^sup>2 + 4 * ?r * ?q) - ?r) / 2"
  let ?c = "\<lambda>n. (cov_next ?r ?q ^^ n) ?q"
  note fp = fixed_point_props [OF assms(2,3)]
  have a1: "A self = 1" using assms(1) by (simp add: fresh_filter_def)
  let ?s = "self\<lparr>x := Num m, cov := Num ?q\<rparr>"
  have first: "kalman_filter self m = Inr (?s, Num m)"
    using assms(1) by (simp add: kalman_filter_def fresh_filter_def)
  have run: "\<exists>s ys. replay self (replicate (Suc n) m) = Inr (s, ys)
             \<and> cov s = Num (?c n) \<and> x s = Num m \<and> last ys = Num m" for n
  proof -
    have "\<exists>s. replay ?s (replicate n m) = Inr (s, replicate n (Num m)) \<and> x s = Num m
       \<and> cov s = Num ((cov_next (R ?s) (Q ?s) ^^ n) ?q)"
      using assms by (intro replay_constant) (simp_all add: fresh_filter_def)
    then obtain s where "replay ?s (replicate n m) = Inr (s, replicate n (Num m))"
      "x s = Num m" "cov s = Num (?c n)"
      by auto
    then show ?thesis using first by (cases n) simp_all
  qed
  have dec: "?c (Suc n) < ?c n" for n
    by (rule cov_seq_decreasing [OF assms(2,3) fp])
  have lim: "?c \<longlonglongrightarrow> ?cs"
    by (rule cov_seq_limit [OF assms(2,3) fp])
  have fixp: "?cs = ((A self)\<^sup>2 * ?cs + ?r) * ?q / ((A self)\<^sup>2 * ?cs + ?r + ?q)"
    using fp(3) a1 by simp
  have e: "(\<lambda>n. m) \<longlonglongrightarrow> m" by simp
  show ?thesis
    using run dec lim fixp e
    by (intro exI[of _ ?c] exI[of _ "\<lambda>n. m"] exI[of _ ?cs]) blast
qed

theorem constant_measurement_converges_witness:
  "fresh_filter (DataStream_init ''data/data.txt'')
   \<and> 0 < R (DataStream_init ''data/data.txt'') \<and> 0 < Q (DataStream_init ''data/data.txt'')
   \<and> (\<exists>c e cstar.
      (\<forall>n. \<exists>s ys. replay (DataStream_init ''data/data.txt'') (replicate (Suc n) (- 0.09398))
               = Inr (s, ys)
             \<and> cov s = Num (c n) \<and> x s = Num (e n) \<and> last ys = Num (e n))
    \<and> (\<forall>n. c (Suc n) < c n)
    \<and> c \<longlonglongrightarrow> cstar
    \<and> cstar = (1 * cstar + 0.002) * 0.1 / (1 * cstar + 0.002 + 0.1)
    \<and> e \<longlonglongrightarrow> - 0.09398)"
proof -
  let ?S = "DataStream_init ''data/data.txt''"
  have f: "fresh_filter ?S"
    by (simp add: fresh_filter_def DataStream_init_def)
  have r: "0 < R ?S"
    by (simp add: DataStream_init_def FILTER_R_def)
  have q: "0 < Q ?S"
    by (simp add: DataStream_init_def FILTER_Q_def)
  have v: "A ?S = 1" "R ?S = 0.002" "Q ?S = 0.1"
    by (simp_all add: DataStream_init_def FILTER_R_def FILTER_Q_def)
  show ?thesis
    using f r q constant_measurement_converges [OF f r q, of "- 0.09398"]
    unfolding v by simp
qed

section \<open>The boundary of the Gregorian reform\<close>

lemma py_trunc_eqI: "of_int z \<le> v \<Longrightarrow> v < of_int z + 1 \<Longrightarrow> 0 \<le> z \<Longrightarrow> py_trunc v = z"
proof -
  assume a: "of_int z \<le> v" "v < of_int z + 1" "0 \<le> z"
  have "0 \<le> v" using a by (meson of_int_0_le_iff order_trans)
  moreover have "\<lfloor>v\<rfloor> = z" using a by (intro floor_unique) simp_all
  ultimately show ?thesis by (simp add: py_trunc_nonneg)
qed

lemma october_1582_julian:
  assumes "2299157 \<le> I" and "I \<le> 2299160" and "0 \<le> F" and "F < 1"
  shows "jd_to_datetime (of_int I + F - 0.5) =
     datetime_new 1582 10 (I - 2299156) \<lfloor>F * 24\<rfloor> \<lfloor>frac (F * 24) * 60\<rfloor>
       \<lfloor>frac (frac (F * 24) * 60) * 60\<rfloor>
       (py_round (frac (frac (frac (F * 24) * 60) * 60) * 1000000))"
proof (rule jd_to_datetime_split [OF _ assms(3,4)])
  have lo: "(2299157 :: real) \<le> of_int I" and hi: "of_int I \<le> (2299160 :: real)"
    using assms(1,2) by simp_all
  show "0 \<le> I" using assms(1) by simp
  show "jd_B I = I" using assms(2) by (simp add: jd_B_def)
  show "py_trunc ((of_int (I + 1524) - 122.1) / 365.25) = 6298"
    using lo hi by (intro py_trunc_eqI) (simp_all add: field_simps)
  show "py_trunc (365.25 * of_int 6298) = 2300344" by (simp add: py_trunc_nonneg)
  show "py_trunc (of_int (I + 1524 - 2300344) / 30.6001) = 11"
    using lo hi by (intro py_trunc_eqI) (simp_all add: field_simps)
  show "I - 2299156 = I + 1524 - 2300344 - py_trunc (30.6001 * of_int 11)"
    by (simp add: py_trunc_nonneg)
  show "0 \<le> I - 2299156" using assms(1) by simp
  show "(10::int) = (if of_int 11 < (13.5 :: real) then 11 - 1 else 11 - 13)" by simp
  show "(1582::int) = (if of_int 10 > (2.5 :: real) then 6298 - 4716 else 6298 - 4715)" by simp
qed

lemma jd_B_gregorian:
  assumes "2299161 \<le> I" and "I \<le> 2299177"
  shows "py_trunc ((of_int I - 1867216.25) / 36524.25) = 11" and "jd_B I = I + 10"
proof -
  have lo: "(2299161 :: real) \<le> of_int I" and hi: "of_int I \<le> (2299177 :: real)"
    using assms by simp_all
  show a: "py_trunc ((of_int I - 1867216.25) / 36524.25) = 11"
    using lo hi by (intro py_trunc_eqI) (simp_all add: field_simps)
  have "py_trunc (of_int 11 / 4) = 2" by (simp add: py_trunc_nonneg)
  then show "jd_B I = I + 10" using assms(1) a by (simp add: jd_B_def)
qed

lemma october_1582_gregorian:
  assumes "2299161 \<le> I" and "I \<le> 2299177" and "0 \<le> F" and "F < 1"
  shows "jd_to_datetime (of_int I + F - 0.5) =
     datetime_new 1582 10 (I - 2299146) \<lfloor>F * 24\<rfloor> \<lfloor>frac (F * 24) * 60\<rfloor>
       \<lfloor>frac (frac (F * 24) * 60) * 60\<rfloor>
       (py_round (frac (frac (frac (F * 24) * 60) * 60) * 1000000))"
proof (rule jd_to_datetime_split [OF _ assms(3,4)])
  have lo: "(2299161 :: real) \<le> of_int I" and hi: "of_int I \<le> (2299177 :: real)"
    using assms(1,2) by simp_all
  show "0 \<le> I" using assms(1) by simp
  show "jd_B I = I + 10" using assms(1,2) by (rule jd_B_gregorian)
  show "py_trunc ((of_int (I + 10 + 1524) - 122.1) / 365.25) = 6298"
    using lo hi by (intro py_trunc_eqI) (simp_all add: field_simps)
  show "py_trunc (365.25 * of_int 6298) = 2300344" by (simp add: py_trunc_nonneg)
  show "py_trunc (of_int (I + 10 + 1524 - 2300344) / 30.6001) = 11"
    using lo hi by (intro py_trunc_eqI) (simp_all add: field_simps)
  show "I - 2299146 = I + 10 + 1524 - 2300344 - py_trunc (30.6001 * of_int 11)"
    by (simp add: py_trunc_nonneg)
  show "0 \<le> I - 2299146" using assms(1) by simp
  show "(10::int) = (if of_int 11 < (13.5 :: real) then 11 - 1 else 11 - 13)" by simp
  show "(1582::int) = (if of_int 10 > (2.5 :: real) then 6298 - 4716 else 6298 - 4715)" by simp
qed

lemma boundary_noon_before:
  "jd_to_datetime 2299160 =
     Inr \<lparr>year = 1582, month = 10, day = 4, hour = 12, minute = 0, second = 0,
           microsecond = 0\<rparr>"
proof -
  have main: "jd_to_datetime (of_int 2299160 + 0.5 - 0.5) =
     datetime_new 1582 10 (2299160 - 2299156) \<lfloor>0.5 * 24 :: real\<rfloor>
       \<lfloor>frac (0.5 * 24 :: real) * 60\<rfloor> \<lfloor>frac (frac (0.5 * 24 :: real) * 60) * 60\<rfloor>
       (py_round (frac (frac (frac (0.5 * 24 :: real) * 60) * 60) * 1000000))"
    by (rule october_1582_julian) simp_all
  have f1: "frac (0.5 * 24 :: real) = 0" by (simp add: frac_def)
  have f2: "frac (0 * 60 :: real) = 0" by simp
  show ?thesis
    using main [unfolded f1 f2]
    by (simp add: py_round_def datetime_new_def days_in_month_def is_leap_def)
qed

lemma boundary_noon_after:
  "jd_to_datetime 2299161 =
     Inr \<lparr>year = 1582, month = 10, day = 15, hour = 12, minute = 0, second = 0,
           microsecond = 0\<rparr>"
proof -
  have main: "jd_to_datetime (of_int 2299161 + 0.5 - 0.5) =
     datetime_new 1582 10 (2299161 - 2299146) \<lfloor>0.5 * 24 :: real\<rfloor>
       \<lfloor>frac (0.5 * 24 :: real) * 60\<rfloor> \<lfloor>frac (frac (0.5 * 24 :: real) * 60) * 60\<rfloor>
       (py_round (frac (frac (frac (0.5 * 24 :: real) * 60) * 60) * 1000000))"
    by (rule october_1582_gregorian) simp_all
  have f1: "frac (0.5 * 24 :: real) = 0" by (simp add: frac_def)
  have f2: "frac (0 * 60 :: real) = 0" by simp
  show ?thesis
    using main [unfolded f1 f2]
    by (simp add: py_round_def datetime_new_def days_in_month_def is_leap_def)
qed

lemma datetime_new_fields:
  "datetime_new y mo d h mi s us = Inr t \<Longrightarrow> year t = y \<and> month t = mo \<and> day t = d"
  by (auto simp add: datetime_new_def split: if_splits)

lemma day_number_split:
  fixes jd :: real
  assumes "of_int lo \<le> jd + 0.5" and "jd + 0.5 < of_int hi + 1" and "0 \<le> lo"
  shows "py_trunc (jd + 0.5) = \<lfloor>jd + 0.5\<rfloor>" and "lo \<le> \<lfloor>jd + 0.5\<rfloor>" and "\<lfloor>jd + 0.5\<rfloor> \<le> hi"
    and "jd = of_int \<lfloor>jd + 0.5\<rfloor> + frac (jd + 0.5) - 0.5"
proof -
  have "0 \<le> jd + 0.5" using assms(1,3) by (meson of_int_0_le_iff order_trans)
  then show "py_trunc (jd + 0.5) = \<lfloor>jd + 0.5\<rfloor>" by (rule py_trunc_nonneg)
  show "lo \<le> \<lfloor>jd + 0.5\<rfloor>" using assms(1) by (simp only: le_floor_iff)
  have "\<lfloor>jd + 0.5\<rfloor> < hi + 1" using assms(2) by (simp only: floor_less_iff of_int_add of_int_1)
  then show "\<lfloor>jd + 0.5\<rfloor> \<le> hi" by simp
  show "jd = of_int \<lfloor>jd + 0.5\<rfloor> + frac (jd + 0.5) - 0.5" by (simp add: frac_def)
qed

text \<open>
  Claim C4, as stated, fails in one part: across the threshold the date is not continuous.
  Julian Day 2299160 is converted to 1582-10-04 and Julian Day 2299161, one day later, to
  1582-10-15, which is not the date after 1582-10-04 in the calendar of \<open>datetime\<close>.
\<close>

theorem gregorian_boundary_gap:
  "jd_to_datetime 2299160 =
     Inr \<lparr>year = 1582, month = 10, day = 4, hour = 12, minute = 0, second = 0,
           microsecond = 0\<rparr>
   \<and> jd_to_datetime (2299160 + 1) =
     Inr \<lparr>year = 1582, month = 10, day = 15, hour = 12, minute = 0, second = 0,
           microsecond = 0\<rparr>
   \<and> next_date 1582 10 4 = (1582, 10, 5)
   \<and> (1582, 10, 15) \<noteq> next_date 1582 10 4"
  using boundary_noon_before boundary_noon_after
  by (simp add: next_date_def days_in_month_def)

text \<open>
  Claim C4, amended. Let \<open>I\<close> be the integral part of \<open>jd + 0.5\<close>. For \<open>jd1\<close> with \<open>I\<close> from
  2299157 to 2299160 and \<open>jd2\<close> with \<open>I\<close> from 2299161 to 2299177, whenever both conversions
  return a timestamp: \<open>jd1\<close> takes the branch \<open>B = I\<close>, \<open>jd2\<close> takes the branch
  \<open>B = I + 1 + A - trunc (A / 4)\<close> with \<open>A = 11\<close>; the dates are the days \<open>I - 2299156\<close> (1 to 4)
  and \<open>I - 2299146\<close> (15 to 31) of October 1582, so the date of \<open>jd1\<close> is strictly before the
  date of \<open>jd2\<close>. The dates from 5 to 14 October are skipped.
\<close>

theorem gregorian_boundary_monotone:
  assumes "2299156.5 \<le> jd1" and "jd1 < 2299160.5"
    and "2299160.5 \<le> jd2" and "jd2 < 2299177.5"
    and "jd_to_datetime jd1 = Inr t1" and "jd_to_datetime jd2 = Inr t2"
  shows "py_trunc (jd1 + 0.5) \<le> 2299160 \<and> 2299160 < py_trunc (jd2 + 0.5)
     \<and> jd_B (py_trunc (jd1 + 0.5)) = py_trunc (jd1 + 0.5)
     \<and> py_trunc ((of_int (py_trunc (jd2 + 0.5)) - 1867216.25) / 36524.25) = 11
     \<and> jd_B (py_trunc (jd2 + 0.5)) = py_trunc (jd2 + 0.5) + 1 + 11 - py_trunc (11 / 4)
     \<and> year t1 = 1582 \<and> month t1 = 10 \<and> day t1 = py_trunc (jd1 + 0.5) - 2299156
     \<and> year t2 = 1582 \<and> month t2 = 10 \<and> day t2 = py_trunc (jd2 + 0.5) - 2299146
     \<and> day t1 < day t2"
proof -
  let ?I1 = "\<lfloor>jd1 + 0.5\<rfloor>" and ?I2 = "\<lfloor>jd2 + 0.5\<rfloor>"
  have b1: "of_int 2299157 \<le> jd1 + 0.5" "jd1 + 0.5 < of_int 2299160 + 1"
    using assms(1,2) by simp_all
  have b2: "of_int 2299161 \<le> jd2 + 0.5" "jd2 + 0.5 < of_int 2299177 + 1"
    using assms(3,4) by simp_all
  note s1 = day_number_split [OF b1] and s2 = day_number_split [OF b2]
  have p1: "py_trunc (jd1 + 0.5) = ?I1" and l1: "2299157 \<le> ?I1" and h1: "?I1 \<le> 2299160"
    and e1: "jd1 = of_int ?I1 + frac (jd1 + 0.5) - 0.5"
    using s1 by simp_all
  have p2: "py_trunc (jd2 + 0.5) = ?I2" and l2: "2299161 \<le> ?I2" and h2: "?I2 \<le> 2299177"
    and e2: "jd2 = of_int ?I2 + frac (jd2 + 0.5) - 0.5"
    using s2 by simp_all
  have fr1: "0 \<le> frac (jd1 + 0.5)" "frac (jd1 + 0.5) < 1"
    and fr2: "0 \<le> frac (jd2 + 0.5)" "frac (jd2 + 0.5) < 1"
    by (simp_all add: frac_lt_1)
  have d1: "year t1 = 1582 \<and> month t1 = 10 \<and> day t1 = ?I1 - 2299156"
    using october_1582_julian [OF l1 h1 fr1] assms(5) e1 datetime_new_fields by metis
  have d2: "year t2 = 1582 \<and> month t2 = 10 \<and> day t2 = ?I2 - 2299146"
    using october_1582_gregorian [OF l2 h2 fr2] assms(6) e2 datetime_new_fields by metis
  have B1: "jd_B ?I1 = ?I1" using h1 by (simp add: jd_B_def)
  have A2: "py_trunc ((of_int ?I2 - 1867216.25) / 36524.25) = 11"
    using l2 h2 by (rule jd_B_gregorian(1))
  have t: "py_trunc (11 / 4) = 2" by (simp add: py_trunc_nonneg)
  have B2: "jd_B ?I2 = ?I2 + 1 + 11 - py_trunc (11 / 4)"
    using jd_B_gregorian(2) [OF l2 h2] t by simp
  have lt: "day t1 < day t2" using d1 d2 h1 l2 by linarith
  have g2: "2299160 < ?I2" using l2 by linarith
  show ?thesis
    unfolding p1 p2 using h1 g2 B1 A2 B2 d1 d2 lt by blast
qed

theorem gregorian_boundary_monotone_witness:
  "(2299156.5 :: real) \<le> 2299160 \<and> (2299160 :: real) < 2299160.5
   \<and> (2299160.5 :: real) \<le> 2299161 \<and> (2299161 :: real) < 2299177.5
   \<and> jd_to_datetime 2299160 =
     Inr \<lparr>year = 1582, month = 10, day = 4, hour = 12, minute = 0, second = 0,
           microsecond = 0\<rparr>
   \<and> jd_to_datetime 2299161 =
     Inr \<lparr>year = 1582, month = 10, day = 15, hour = 12, minute = 0, second = 0,
           microsecond = 0\<rparr>
   \<and> jd_B (py_trunc (2299160 + 0.5)) = py_trunc (2299160 + 0.5)
   \<and> jd_B (py_trunc (2299161 + 0.5)) = py_trunc (2299161 + 0.5) + 1 + 11 - py_trunc (11 / 4)"
proof -
  have a: "(2299156.5 :: real) \<le> 2299160" "(2299160 :: real) < 2299160.5"
    "(2299160.5 :: real) \<le> 2299161" "(2299161 :: real) < 2299177.5"
    by simp_all
  from gregorian_boundary_monotone [OF a boundary_noon_before boundary_noon_after]
  show ?thesis using a boundary_noon_before boundary_noon_after
    by (simp add: py_trunc_nonneg)
qed

section \<open>Failures of the conversion\<close>

text \<open>
  Claim C5 does not hold of the code. The binary64 value 2458126.2567824074, which is
  exactly \<open>5278785941159669 / 2 ^ 31\<close>, is 18:09:45 and \<open>1 - 1 / 2 ^ 24\<close> seconds on 7 January 2018.
  The fractional second times one million rounds to 1000000, no carry is made into the
  seconds, and the \<open>datetime\<close> constructor raises \<open>ValueError\<close>.
\<close>

theorem jd_to_datetime_microsecond_overflow:
  "jd_to_datetime (5278785941159669 / 2147483648) = Inl ValueError"
proof -
  have main: "jd_to_datetime (of_int 2458126 + 1625177845 / 2147483648 - 0.5) =
     datetime_new 2018 1 7 \<lfloor>1625177845 / 2147483648 * 24 :: real\<rfloor>
       \<lfloor>frac (1625177845 / 2147483648 * 24 :: real) * 60\<rfloor>
       \<lfloor>frac (frac (1625177845 / 2147483648 * 24 :: real) * 60) * 60\<rfloor>
       (py_round (frac (frac (frac (1625177845 / 2147483648 * 24 :: real) * 60) * 60) * 1000000))"
    by (rule day_2458126) simp_all
  have f1: "frac (1625177845 / 2147483648 * 24 :: real) = 43695327 / 268435456"
    by (simp add: frac_def)
  have f2: "frac (43695327 / 268435456 * 60 :: real) = 51450129 / 67108864"
    by (simp add: frac_def)
  have f3: "frac (51450129 / 67108864 * 60 :: real) = 16777215 / 16777216"
    by (simp add: frac_def)
  have r: "py_round (16777215 / 16777216 * 1000000) = 1000000"
    by (simp add: py_round_def)
  have jd: "of_int 2458126 + 1625177845 / 2147483648 - 0.5 = (5278785941159669 / 2147483648 :: real)"
    by simp
  show ?thesis
    using main [unfolded f1 f2 f3 r jd]
    by (simp add: datetime_new_def)
qed

text \<open>
  A second failure: Julian Day 2268992 falls in the branch \<open>B = I\<close> and gives 29 February
  1500 of the Julian calendar, a date that \<open>datetime\<close> does not have.
\<close>

lemma jd_to_datetime_julian_leap_day:
  "jd_to_datetime 2268992 = Inl ValueError"
proof -
  have main: "jd_to_datetime (of_int 2268992 + 0.5 - 0.5) =
     datetime_new 1500 2 29 \<lfloor>0.5 * 24 :: real\<rfloor>
       \<lfloor>frac (0.5 * 24 :: real) * 60\<rfloor> \<lfloor>frac (frac (0.5 * 24 :: real) * 60) * 60\<rfloor>
       (py_round (frac (frac (frac (0.5 * 24 :: real) * 60) * 60) * 1000000))"
  proof (rule jd_to_datetime_split)
    show "(0::int) \<le> 2268992" by simp
    show "(0::real) \<le> 0.5" "(0.5::real) < 1" by simp_all
    show "jd_B 2268992 = 2268992" by (simp add: jd_B_def)
    show "py_trunc ((of_int (2268992 + 1524) - 122.1) / 365.25) = 6215" by (simp add: py_trunc_nonneg)
    show "py_trunc (365.25 * of_int 6215) = 2270028" by (simp add: py_trunc_nonneg)
    show "py_trunc (of_int (2268992 + 1524 - 2270028) / 30.6001) = 15" by (simp add: py_trunc_nonneg)
    show "(29::int) = 2268992 + 1524 - 2270028 - py_trunc (30.6001 * of_int 15)"
      by (simp add: py_trunc_nonneg)
    show "(0::int) \<le> 29" by simp
    show "(2::int) = (if of_int 15 < (13.5 :: real) then 15 - 1 else 15 - 13)" by simp
    show "(1500::int) = (if of_int 2 > (2.5 :: real) then 6215 - 4716 else 6215 - 4715)" by simp
  qed
  show ?thesis
    unfolding main [simplified]
    by (simp add: datetime_new_def days_in_month_def is_leap_def)
qed

end
